theory Spec2Isabelle
  imports Main
begin

section \<open>The guess evaluator of the Wordle server\<close>

text \<open>
  The route \<open>POST /api/guess\<close> of \<open>come dovrebbe venire/server.js\<close> receives a guess and a
  target as text, rejects malformed input with status 400, and otherwise classifies every
  letter of the upper-cased guess in two passes over two arrays that it marks in place.

  A JavaScript string is a sequence of UTF-16 code units; the model is polymorphic in the
  type \<open>'c\<close> of a code unit and a string is a \<open>'c list\<close>, so that \<open>s.length\<close> is
  \<open>length s\<close>. Only text inputs are modelled: a field of the request body is a
  \<open>'c list option\<close>, \<open>None\<close> for a field that is absent (\<open>undefined\<close>) or \<open>null\<close>.
\<close>

subsection \<open>Data\<close>

text \<open>The three labels the route writes into \<open>result\<close>: \<open>'absent'\<close>, \<open>'present'\<close>,
  \<open>'correct'\<close> (the specification calls the last one \<open>exact\<close>).\<close>

datatype verdict = Absent | Present | Correct

text \<open>An element of \<open>targetArr\<close> or \<open>guessArr\<close>: a one-character string, or \<open>null\<close> once
  the slot is marked as used.\<close>

datatype 'c slot = Letter 'c | Null

text \<open>The three local arrays of the algorithm.\<close>

record 'c eval_state =
  result :: "verdict list"
  targetArr :: "'c slot list"
  guessArr :: "'c slot list"

text \<open>The body of the success response, \<open>{ result, guess: guessUpper }\<close>.\<close>

record 'c guess_response =
  json_result :: "verdict list"
  json_guess :: "'c list"

text \<open>The only error response of the route: status 400 with
  \<open>{ error: 'Dati non validi.' }\<close>.\<close>

datatype api_error = Dati_non_validi

subsection \<open>Array primitives\<close>

text \<open>Reading \<open>xs[i]\<close>: \<open>None\<close> stands for \<open>undefined\<close>, the value of a read past the
  end.\<close>

definition js_index :: "'a list \<Rightarrow> nat \<Rightarrow> 'a option" where
  "js_index xs i = (if i < length xs then Some (xs ! i) else None)"

text \<open>\<open>xs.indexOf(x)\<close>: the first index holding a value strictly equal to \<open>x\<close>;
  \<open>None\<close> stands for \<open>-1\<close>.\<close>

fun indexOf :: "'a list \<Rightarrow> 'a \<Rightarrow> nat option" where
  "indexOf [] x = None"
| "indexOf (y # ys) x = (if y = x then Some 0 else map_option Suc (indexOf ys x))"

subsection \<open>The two passes\<close>

text \<open>
  First pass, lines 152 to 158. The loop index stays below \<open>guessArr.length\<close>, which is
  also the length of \<open>result\<close>, so \<open>guessArr[i]\<close> and \<open>result[i]\<close> are in range. The
  target array may be shorter: then \<open>targetArr[i]\<close> is \<open>undefined\<close>, the comparison fails
  and nothing is written, so no write ever lands past the end of an array.
\<close>

definition first_pass_body :: "nat \<Rightarrow> 'c eval_state \<Rightarrow> 'c eval_state" where
  "first_pass_body i st =
     (if Some (guessArr st ! i) = js_index (targetArr st) i
      then st\<lparr>result := (result st)[i := Correct],
              targetArr := (targetArr st)[i := Null],
              guessArr := (guessArr st)[i := Null]\<rparr>
      else st)"

lemma length_guessArr_first_pass_body [simp]:
  "length (guessArr (first_pass_body i st)) = length (guessArr st)"
  by (simp add: first_pass_body_def)

function first_pass :: "nat \<Rightarrow> 'c eval_state \<Rightarrow> 'c eval_state" where
  "first_pass i st =
     (if i < length (guessArr st) then first_pass (i + 1) (first_pass_body i st) else st)"
  by pat_completeness auto
termination
  by (relation "measure (\<lambda>(i, st). length (guessArr st) - i)") auto

declare first_pass.simps [simp del]

text \<open>
  Second pass, lines 161 to 168. A slot of the guess nulled by the first pass is skipped;
  otherwise the first slot of the target still holding the same letter, if there is one,
  is nulled and the position becomes \<open>'present'\<close>. \<open>indexOf\<close> returns an index of
  \<open>targetArr\<close>, so this write is in range as well.
\<close>

definition second_pass_body :: "nat \<Rightarrow> 'c eval_state \<Rightarrow> 'c eval_state" where
  "second_pass_body i st =
     (if guessArr st ! i = Null then st
      else (case indexOf (targetArr st) (guessArr st ! i) of
              None \<Rightarrow> st
            | Some idx \<Rightarrow> st\<lparr>result := (result st)[i := Present],
                              targetArr := (targetArr st)[idx := Null]\<rparr>))"

lemma length_guessArr_second_pass_body [simp]:
  "length (guessArr (second_pass_body i st)) = length (guessArr st)"
  by (simp add: second_pass_body_def split: option.splits)

function second_pass :: "nat \<Rightarrow> 'c eval_state \<Rightarrow> 'c eval_state" where
  "second_pass i st =
     (if i < length (guessArr st) then second_pass (i + 1) (second_pass_body i st) else st)"
  by pat_completeness auto
termination
  by (relation "measure (\<lambda>(i, st). length (guessArr st) - i)") auto

declare second_pass.simps [simp del]

text \<open>Lines 146 to 168: the arrays are set up from the upper-cased strings
  (\<open>Array(n).fill('absent')\<close>, \<open>split('')\<close>), then the two loops run in sequence.\<close>

definition evaluate :: "'c list \<Rightarrow> 'c list \<Rightarrow> verdict list" where
  "evaluate guessUpper targetUpper =
     result (second_pass 0 (first_pass 0
       \<lparr>result = replicate (length guessUpper) Absent,
        targetArr = map Letter targetUpper,
        guessArr = map Letter guessUpper\<rparr>))"

subsection \<open>The route\<close>

text \<open>\<open>!x\<close> on a text field: true when the field is missing or the empty string.\<close>

fun falsy :: "'c list option \<Rightarrow> bool" where
  "falsy None = True"
| "falsy (Some s) = (s = [])"

text \<open>
  Lines 135 to 171. \<open>String.prototype.toUpperCase\<close> belongs to the JavaScript runtime,
  not to this repository, and is taken as the parameter \<open>toUpperCase\<close>. The guard is
  evaluated left to right, so the lengths are compared only when both fields are present.
\<close>

definition api_guess ::
  "('c list \<Rightarrow> 'c list) \<Rightarrow> 'c list option \<Rightarrow> 'c list option \<Rightarrow> api_error + 'c guess_response" where
  "api_guess toUpperCase guess target =
     (if falsy guess \<or> falsy target \<or> length (the guess) \<noteq> length (the target)
      then Inl Dati_non_validi
      else (let guessUpper = toUpperCase (the guess);
                targetUpper = toUpperCase (the target)
            in Inr \<lparr>json_result = evaluate guessUpper targetUpper, json_guess = guessUpper\<rparr>))"

text \<open>
  On a string of ASCII characters \<open>toUpperCase\<close> replaces \<open>a\<close> to \<open>z\<close> (codes 97 to 122)
  by \<open>A\<close> to \<open>Z\<close> and keeps every other character. This instance serves the concrete
  scenarios, whose words are ASCII; it says nothing about characters from 128 on.
\<close>

definition ascii_upper :: "char \<Rightarrow> char" where
  "ascii_upper c =
     (let n = (of_char c :: nat) in if 97 \<le> n \<and> n \<le> 122 then char_of (n - 32) else c)"

definition ascii_toUpperCase :: "string \<Rightarrow> string" where
  "ascii_toUpperCase s = map ascii_upper s"

text \<open>The caller's win test, \<open>game.js\<close> line 283:
  \<open>dati.result.every(r => r === 'correct')\<close>.\<close>

definition haVinto :: "verdict list \<Rightarrow> bool" where
  "haVinto res = list_all (\<lambda>r. r = Correct) res"

section \<open>The two-pass reference of the specification\<close>

text \<open>
  These definitions follow the words of the specification, not the code. Pass 1 marks a
  position as exact when guess and target agree there, and the mark consumes both letters.
  Pass 2 walks the guess from left to right; a position that is not exact claims the
  leftmost target letter that is still unconsumed and equal to it, and is then present;
  when there is none it stays absent. A letter is paired with its mark (\<open>True\<close> for
  consumed); the label \<open>exact\<close> is the verdict \<open>Correct\<close>.
\<close>

definition exact_marks :: "'c list \<Rightarrow> 'c list \<Rightarrow> bool list" where
  "exact_marks guess target = map (\<lambda>(g, t). g = t) (zip guess target)"

fun consume_leftmost :: "'c \<Rightarrow> ('c \<times> bool) list \<Rightarrow> ('c \<times> bool) list option" where
  "consume_leftmost c [] = None"
| "consume_leftmost c ((t, used) # rest) =
     (if \<not> used \<and> t = c then Some ((t, True) # rest)
      else map_option (\<lambda>rest'. (t, used) # rest') (consume_leftmost c rest))"

fun present_pass :: "('c \<times> bool) list \<Rightarrow> ('c \<times> bool) list \<Rightarrow> verdict list" where
  "present_pass [] target = []"
| "present_pass ((c, exact) # rest) target =
     (if exact then Correct # present_pass rest target
      else (case consume_leftmost c target of
              None \<Rightarrow> Absent # present_pass rest target
            | Some target' \<Rightarrow> Present # present_pass rest target'))"

definition two_pass_reference :: "'c list \<Rightarrow> 'c list \<Rightarrow> verdict list" where
  "two_pass_reference guess target =
     (let exact = exact_marks guess target
      in present_pass (zip guess exact) (zip target exact))"

text \<open>The quantities of the duplicate-count invariant: the positions of a guess that hold
  the letter \<open>L\<close> and were judged exact or present, and the occurrences of \<open>L\<close> among the
  target letters not yet consumed.\<close>

definition unconsumed :: "'c \<Rightarrow> ('c \<times> bool) list \<Rightarrow> nat" where
  "unconsumed L ms = length (filter (\<lambda>(c, used). c = L \<and> \<not> used) ms)"

definition credited :: "'c \<Rightarrow> 'c list \<Rightarrow> verdict list \<Rightarrow> nat" where
  "credited L guess res =
     length (filter (\<lambda>(c, v). c = L \<and> (v = Correct \<or> v = Present)) (zip guess res))"

text \<open>How the marked letters of the reference appear in the arrays of the code: a consumed
  letter is a nulled slot, an exact position is labelled \<open>'correct'\<close>.\<close>

definition slots :: "('c \<times> bool) list \<Rightarrow> 'c slot list" where
  "slots ms = map (\<lambda>(c, used). if used then Null else Letter c) ms"

definition labels :: "('c \<times> bool) list \<Rightarrow> verdict list" where
  "labels ms = map (\<lambda>(c, exact). if exact then Correct else Absent) ms"

section \<open>The code refines the reference\<close>

lemma length_slots [simp]: "length (slots ms) = length ms"
  by (simp add: slots_def)

lemma length_labels [simp]: "length (labels ms) = length ms"
  by (simp add: labels_def)

lemma slots_Cons [simp]: "slots ((c, u) # ms) = (if u then Null else Letter c) # slots ms"
  by (simp add: slots_def)

lemma labels_Cons [simp]: "labels ((c, e) # ms) = (if e then Correct else Absent) # labels ms"
  by (simp add: labels_def)

lemma slots_Nil [simp]: "slots [] = []"
  by (simp add: slots_def)

lemma labels_Nil [simp]: "labels [] = []"
  by (simp add: labels_def)

lemma first_pass_suffix:
  assumes "length g = length t" "length rp = length gp" "length tp = length gp"
  shows "first_pass (length gp)
           \<lparr>result = rp @ replicate (length g) Absent,
            targetArr = tp @ map Letter t,
            guessArr = gp @ map Letter g\<rparr>
         = \<lparr>result = rp @ labels (zip g (exact_marks g t)),
            targetArr = tp @ slots (zip t (exact_marks g t)),
            guessArr = gp @ slots (zip g (exact_marks g t))\<rparr>"
  using assms
proof (induction g t arbitrary: rp tp gp rule: list_induct2)
  case Nil
  then show ?case
    by (subst first_pass.simps) (simp add: exact_marks_def)
next
  case (Cons x g y t)
  show ?case
  proof (cases "x = y")
    case True
    have "first_pass (Suc (length gp))
            \<lparr>result = (rp @ [Correct]) @ replicate (length g) Absent,
             targetArr = (tp @ [Null]) @ map Letter t,
             guessArr = (gp @ [Null]) @ map Letter g\<rparr>
          = \<lparr>result = (rp @ [Correct]) @ labels (zip g (exact_marks g t)),
             targetArr = (tp @ [Null]) @ slots (zip t (exact_marks g t)),
             guessArr = (gp @ [Null]) @ slots (zip g (exact_marks g t))\<rparr>"
      using Cons.IH [of "rp @ [Correct]" "gp @ [Null]" "tp @ [Null]"] Cons.prems by simp
    with True Cons.prems Cons.hyps show ?thesis
      by (subst first_pass.simps)
         (simp add: first_pass_body_def js_index_def exact_marks_def nth_append list_update_append)
  next
    case False
    have "first_pass (Suc (length gp))
            \<lparr>result = (rp @ [Absent]) @ replicate (length g) Absent,
             targetArr = (tp @ [Letter y]) @ map Letter t,
             guessArr = (gp @ [Letter x]) @ map Letter g\<rparr>
          = \<lparr>result = (rp @ [Absent]) @ labels (zip g (exact_marks g t)),
             targetArr = (tp @ [Letter y]) @ slots (zip t (exact_marks g t)),
             guessArr = (gp @ [Letter x]) @ slots (zip g (exact_marks g t))\<rparr>"
      using Cons.IH [of "rp @ [Absent]" "gp @ [Letter x]" "tp @ [Letter y]"] Cons.prems by simp
    with False Cons.prems Cons.hyps show ?thesis
      by (subst first_pass.simps)
         (simp add: first_pass_body_def js_index_def exact_marks_def nth_append list_update_append)
  qed
qed

lemma indexOf_slots_None:
  "consume_leftmost c ms = None \<Longrightarrow> indexOf (slots ms) (Letter c) = None"
  by (induction ms) (auto split: if_splits)

lemma indexOf_slots_Some:
  "consume_leftmost c ms = Some ms' \<Longrightarrow>
   \<exists>idx. indexOf (slots ms) (Letter c) = Some idx \<and> (slots ms)[idx := Null] = slots ms'"
  by (induction ms arbitrary: ms') (auto split: if_splits)

lemma second_pass_suffix:
  assumes "length rp = length gp"
  shows "result (second_pass (length gp)
           \<lparr>result = rp @ labels ge, targetArr = slots ms, guessArr = gp @ slots ge\<rparr>)
         = rp @ present_pass ge ms"
  using assms
proof (induction ge arbitrary: rp gp ms)
  case Nil
  then show ?case by (subst second_pass.simps) simp
next
  case (Cons p ge)
  obtain c e where p: "p = (c, e)" by (cases p)
  have step: "result (second_pass (Suc (length gp))
           \<lparr>result = (rp @ [v]) @ labels ge, targetArr = slots ms', guessArr = (gp @ [s]) @ slots ge\<rparr>)
         = (rp @ [v]) @ present_pass ge ms'" for v s and ms' :: "('a \<times> bool) list"
    using Cons.IH [of "rp @ [v]" "gp @ [s]" ms'] Cons.prems by simp
  show ?case
  proof (cases e)
    case True
    with p Cons.prems step [where v = Correct and s = Null and ms' = ms] show ?thesis
      by (subst second_pass.simps) (simp add: second_pass_body_def nth_append list_update_append)
  next
    case False
    show ?thesis
    proof (cases "consume_leftmost c ms")
      case None
      with False p Cons.prems step [where v = Absent and s = "Letter c" and ms' = ms] indexOf_slots_None [OF None]
      show ?thesis
        by (subst second_pass.simps) (simp add: second_pass_body_def nth_append list_update_append)
    next
      case (Some ms')
      from indexOf_slots_Some [OF Some] obtain idx where
        idx: "indexOf (slots ms) (Letter c) = Some idx" "(slots ms)[idx := Null] = slots ms'"
        by blast
      with Some False p Cons.prems step [where v = Present and s = "Letter c" and ms' = ms']
      show ?thesis
        by (subst second_pass.simps) (simp add: second_pass_body_def nth_append list_update_append)
    qed
  qed
qed

lemma evaluate_two_pass:
  assumes "length g = length t"
  shows "evaluate g t = two_pass_reference g t"
proof -
  have "first_pass 0 \<lparr>result = replicate (length g) Absent, targetArr = map Letter t,
            guessArr = map Letter g\<rparr>
        = \<lparr>result = labels (zip g (exact_marks g t)),
            targetArr = slots (zip t (exact_marks g t)),
            guessArr = slots (zip g (exact_marks g t))\<rparr>"
    using first_pass_suffix [OF assms, of "[]" "[]" "[]"] by simp
  moreover have "result (second_pass 0
           \<lparr>result = labels ge, targetArr = slots ms, guessArr = slots ge\<rparr>)
         = present_pass ge ms" for ge ms :: "('a \<times> bool) list"
    using second_pass_suffix [of "[]" "[]" ge ms] by simp
  ultimately show ?thesis
    by (simp add: evaluate_def two_pass_reference_def Let_def)
qed

section \<open>Properties of the reference\<close>

lemma length_present_pass [simp]: "length (present_pass ge ms) = length ge"
  by (induction ge ms rule: present_pass.induct) (auto split: option.splits)

lemma consume_leftmost_unconsumed:
  "consume_leftmost c ms = Some ms' \<Longrightarrow>
   unconsumed L ms' + (if c = L then 1 else 0) = unconsumed L ms"
  by (induction ms arbitrary: ms') (auto simp: unconsumed_def split: if_splits)

lemma credited_present_pass:
  "credited L (map fst ge) (present_pass ge ms)
   \<le> length (filter (\<lambda>(c, exact). c = L \<and> exact) ge) + unconsumed L ms"
proof (induction ge ms rule: present_pass.induct)
  case (1 ms)
  then show ?case by (simp add: credited_def)
next
  case (2 c exact rest ms)
  show ?case
  proof (cases exact)
    case True
    with 2 show ?thesis by (simp add: credited_def)
  next
    case False
    show ?thesis
    proof (cases "consume_leftmost c ms")
      case None
      with False 2 show ?thesis by (simp add: credited_def)
    next
      case (Some ms')
      with False 2 consume_leftmost_unconsumed [OF Some, of L] show ?thesis
        by (simp add: credited_def split: if_splits)
    qed
  qed
qed

lemma exact_plus_unconsumed:
  "length g = length t \<Longrightarrow>
   length (filter (\<lambda>(c, exact). c = L \<and> exact) (zip g (exact_marks g t)))
     + unconsumed L (zip t (exact_marks g t)) = count_list t L"
  by (induction g t rule: list_induct2) (auto simp: exact_marks_def unconsumed_def)

lemma length_exact_marks [simp]: "length (exact_marks g t) = min (length g) (length t)"
  by (simp add: exact_marks_def)

lemma credited_two_pass:
  assumes "length g = length t"
  shows "credited L g (two_pass_reference g t) \<le> count_list t L"
proof -
  have "map fst (zip g (exact_marks g t)) = g"
    using assms by (simp add: map_fst_zip)
  with credited_present_pass [of L "zip g (exact_marks g t)" "zip t (exact_marks g t)"]
    exact_plus_unconsumed [OF assms, of L]
  show ?thesis by (simp add: two_pass_reference_def Let_def)
qed

lemma present_pass_Correct:
  "i < length ge \<Longrightarrow> (present_pass ge ms ! i = Correct) = snd (ge ! i)"
proof (induction ge ms arbitrary: i rule: present_pass.induct)
  case (1 ms)
  then show ?case by simp
next
  case (2 c exact rest ms)
  then show ?case by (cases i) (auto split: option.splits)
qed

lemma two_pass_Correct:
  assumes "length g = length t" "i < length g"
  shows "(two_pass_reference g t ! i = Correct) = (g ! i = t ! i)"
  using assms by (simp add: two_pass_reference_def Let_def present_pass_Correct exact_marks_def)

lemma present_pass_all_exact:
  "list_all snd ge \<Longrightarrow> present_pass ge ms = replicate (length ge) Correct"
  by (induction ge ms rule: present_pass.induct) auto

lemma two_pass_self: "two_pass_reference w w = replicate (length w) Correct"
proof -
  have "list_all snd (zip w (exact_marks w w))"
    by (induction w) (auto simp: exact_marks_def)
  then show ?thesis
    by (simp add: two_pass_reference_def Let_def present_pass_all_exact)
qed

section \<open>Shape of the result and of the response\<close>

lemma length_result_first_pass: "length (result (first_pass i st)) = length (result st)"
proof (induction i st rule: first_pass.induct)
  case (1 i st)
  show ?case
  proof (cases "i < length (guessArr st)")
    case True
    with 1 show ?thesis
      by (subst first_pass.simps) (simp add: first_pass_body_def)
  next
    case False
    then show ?thesis by (subst first_pass.simps) simp
  qed
qed

lemma length_result_second_pass: "length (result (second_pass i st)) = length (result st)"
proof (induction i st rule: second_pass.induct)
  case (1 i st)
  show ?case
  proof (cases "i < length (guessArr st)")
    case True
    with 1 show ?thesis
      by (subst second_pass.simps) (simp add: second_pass_body_def split: option.splits)
  next
    case False
    then show ?thesis by (subst second_pass.simps) simp
  qed
qed

lemma length_evaluate: "length (evaluate g t) = length g"
  by (simp add: evaluate_def length_result_first_pass length_result_second_pass)

lemma api_guess_success:
  "g \<noteq> [] \<Longrightarrow> length g = length t \<Longrightarrow>
   api_guess up (Some g) (Some t)
     = Inr \<lparr>json_result = evaluate (up g) (up t), json_guess = up g\<rparr>"
  by (auto simp: api_guess_def Let_def)

section \<open>The claims\<close>

text \<open>
  Claim C1. For equal-length words, taken after canonicalization to upper case (the
  strings \<open>guessUpper\<close> and \<open>targetUpper\<close> of the route), the verdicts computed by the code
  are those of the two-pass reference: exact positions first, with both letters consumed,
  then for every remaining position the leftmost unconsumed target occurrence of its
  letter, present when there is one and absent otherwise. Non-emptiness is not needed.
\<close>

theorem evaluate_is_two_pass_reference:
  "length guessUpper = length targetUpper \<Longrightarrow>
   evaluate guessUpper targetUpper = two_pass_reference guessUpper targetUpper"
  by (rule evaluate_two_pass)

theorem evaluate_is_two_pass_reference_witness:
  "length ''ERATS'' = length ''STARE''
   \<and> evaluate ''ERATS'' ''STARE'' = two_pass_reference ''ERATS'' ''STARE''
   \<and> two_pass_reference ''ERATS'' ''STARE'' = [Present, Present, Correct, Present, Present]"
proof -
  have h: "length ''ERATS'' = length ''STARE''"
    by simp
  have r: "two_pass_reference ''ERATS'' ''STARE'' = [Present, Present, Correct, Present, Present]"
    by code_simp
  show ?thesis
    using h r evaluate_is_two_pass_reference [OF h] by simp
qed

text \<open>
  Claim C2. For equal-length words and every letter \<open>L\<close>, the positions of the guess that
  hold \<open>L\<close> and are judged exact or present are at most as many as the occurrences of
  \<open>L\<close> in the target.
\<close>

theorem duplicate_count_invariant:
  "length guessUpper = length targetUpper \<Longrightarrow>
   credited L guessUpper (evaluate guessUpper targetUpper) \<le> count_list targetUpper L"
  by (simp add: evaluate_two_pass credited_two_pass)

theorem duplicate_count_invariant_witness:
  "length ''NONN'' = length ''ANNO''
   \<and> credited (CHR ''N'') ''NONN'' (evaluate ''NONN'' ''ANNO'') \<le> count_list ''ANNO'' (CHR ''N'')
   \<and> count_list ''ANNO'' (CHR ''N'') = 2"
proof -
  have h: "length ''NONN'' = length ''ANNO''"
    by simp
  have c: "count_list ''ANNO'' (CHR ''N'') = 2"
    by simp
  show ?thesis
    using h c duplicate_count_invariant [OF h, of "CHR ''N''"] by simp
qed

text \<open>
  Claim C3. The specification expects \<open>[present, exact, absent, absent]\<close> for the guess
  \<open>NONN\<close> against the target \<open>ANNO\<close>. The code does not produce that sequence: the
  guess agrees with the target at index 2 only (its letter at index 1 is \<open>O\<close>), and the
  verdicts are \<open>[present, present, exact, absent]\<close>.
\<close>

theorem nonn_anno_not_as_specified:
  "evaluate ''NONN'' ''ANNO'' \<noteq> [Present, Correct, Absent, Absent]"
  by code_simp

theorem nonn_anno_verdicts:
  "api_guess ascii_toUpperCase (Some ''NONN'') (Some ''ANNO'')
     = Inr \<lparr>json_result = [Present, Present, Correct, Absent], json_guess = ''NONN''\<rparr>"
  by code_simp

text \<open>
  Claim C4. Words of different lengths are rejected with the error response of the route,
  and no verdicts are produced; so are \<open>AB\<close> against \<open>ABC\<close>.
\<close>

theorem length_mismatch_rejected:
  "length guess \<noteq> length target \<Longrightarrow>
   api_guess toUpperCase (Some guess) (Some target) = Inl Dati_non_validi"
  by (simp add: api_guess_def)

theorem length_mismatch_rejected_witness:
  "length ''AB'' \<noteq> length ''ABC''
   \<and> api_guess ascii_toUpperCase (Some ''AB'') (Some ''ABC'') = Inl Dati_non_validi"
proof -
  have h: "length ''AB'' \<noteq> length ''ABC''"
    by simp
  show ?thesis
    using h length_mismatch_rejected [OF h, of ascii_toUpperCase] by simp
qed

text \<open>
  Claim C5. The guess \<open>ROBOT\<close> against the target \<open>LIBRO\<close> gives
  \<open>[present, present, exact, absent, absent]\<close>: the first \<open>O\<close> of the guess takes the
  only \<open>O\<close> of the target and the second one is absent.
\<close>

theorem robot_libro_verdicts:
  "api_guess ascii_toUpperCase (Some ''ROBOT'') (Some ''LIBRO'')
     = Inr \<lparr>json_result = [Present, Present, Correct, Absent, Absent], json_guess = ''ROBOT''\<rparr>"
  by code_simp

text \<open>
  Claim C6. A non-empty word evaluated against itself gets the verdict exact at every
  position, and the caller's win test accepts that result.
\<close>

theorem self_guess_wins:
  "w \<noteq> [] \<Longrightarrow>
   api_guess toUpperCase (Some w) (Some w)
     = Inr \<lparr>json_result = replicate (length (toUpperCase w)) Correct,
            json_guess = toUpperCase w\<rparr>
   \<and> haVinto (replicate (length (toUpperCase w)) Correct)"
  by (simp add: api_guess_success evaluate_two_pass two_pass_self haVinto_def list_all_length)

theorem self_guess_wins_witness:
  "''stare'' \<noteq> []
   \<and> api_guess ascii_toUpperCase (Some ''stare'') (Some ''stare'')
       = Inr \<lparr>json_result = [Correct, Correct, Correct, Correct, Correct],
              json_guess = ''STARE''\<rparr>
   \<and> haVinto [Correct, Correct, Correct, Correct, Correct]"
proof -
  have h: "''stare'' \<noteq> []"
    by simp
  have u: "ascii_toUpperCase ''stare'' = ''STARE''"
    by code_simp
  show ?thesis
    using h self_guess_wins [OF h, of ascii_toUpperCase] by (simp add: u)
qed

text \<open>
  Claim C7. The route compares the words in upper case only: the verdicts of a valid pair
  are those of the algorithm run on the two canonicalized strings, the response carries
  the canonicalized guess beside them, and two valid pairs with the same canonical forms
  get the same response.
\<close>

theorem case_insensitive_response:
  assumes "g \<noteq> []" and "length g = length t" and "g' \<noteq> []" and "length g' = length t'"
    and "toUpperCase g' = toUpperCase g" and "toUpperCase t' = toUpperCase t"
  shows "api_guess toUpperCase (Some g) (Some t)
           = Inr \<lparr>json_result = evaluate (toUpperCase g) (toUpperCase t),
                  json_guess = toUpperCase g\<rparr>
         \<and> api_guess toUpperCase (Some g') (Some t') = api_guess toUpperCase (Some g) (Some t)"
  using assms by (simp add: api_guess_success)

theorem case_insensitive_response_witness:
  "api_guess ascii_toUpperCase (Some ''erats'') (Some ''Stare'')
     = Inr \<lparr>json_result = evaluate ''ERATS'' ''STARE'', json_guess = ''ERATS''\<rparr>
   \<and> api_guess ascii_toUpperCase (Some ''ERATS'') (Some ''STARE'')
       = api_guess ascii_toUpperCase (Some ''erats'') (Some ''Stare'')"
proof -
  have g: "ascii_toUpperCase ''erats'' = ''ERATS''"
    by code_simp
  have t: "ascii_toUpperCase ''Stare'' = ''STARE''"
    by code_simp
  have g': "ascii_toUpperCase ''ERATS'' = ''ERATS''"
    by code_simp
  have t': "ascii_toUpperCase ''STARE'' = ''STARE''"
    by code_simp
  show ?thesis
    using case_insensitive_response
      [of "''erats''" "''Stare''" "''ERATS''" "''STARE''" ascii_toUpperCase]
    by (simp add: g t g' t')
qed

text \<open>
  Claim C8. When the guess or the target is the empty string the route answers with its
  error response, the single kind into which empty input is folded, and produces no
  verdicts.
\<close>

theorem empty_input_rejected:
  "length guess = 0 \<or> length target = 0 \<Longrightarrow>
   api_guess toUpperCase (Some guess) (Some target) = Inl Dati_non_validi"
  by (auto simp: api_guess_def)

theorem empty_input_rejected_witness:
  "(length '''' = 0 \<or> length ''ABC'' = 0)
   \<and> api_guess ascii_toUpperCase (Some '''') (Some ''ABC'') = Inl Dati_non_validi"
proof -
  have h: "length '''' = 0 \<or> length ''ABC'' = 0"
    by simp
  show ?thesis
    using h empty_input_rejected [OF h, of ascii_toUpperCase] by simp
qed

text \<open>
  Claim C9. For equal-length canonical words there is one verdict for every position of
  the guess, and the verdict at a position is exact precisely when guess and target hold
  the same letter there; the second pass never overwrites an exact position and never
  makes one.
\<close>

theorem exact_iff_same_letter:
  "length guessUpper = length targetUpper \<Longrightarrow>
   length (evaluate guessUpper targetUpper) = length guessUpper
   \<and> (\<forall>i < length guessUpper.
        (evaluate guessUpper targetUpper ! i = Correct) = (guessUpper ! i = targetUpper ! i))"
proof -
  assume len: "length guessUpper = length targetUpper"
  have "\<forall>i < length guessUpper.
        (two_pass_reference guessUpper targetUpper ! i = Correct)
          = (guessUpper ! i = targetUpper ! i)"
    using len by (simp add: two_pass_Correct)
  then show ?thesis
    by (simp add: length_evaluate evaluate_two_pass [OF len, symmetric])
qed

theorem exact_iff_same_letter_witness:
  "length ''ROBOT'' = length ''LIBRO''
   \<and> length (evaluate ''ROBOT'' ''LIBRO'') = 5
   \<and> evaluate ''ROBOT'' ''LIBRO'' ! 2 = Correct
   \<and> evaluate ''ROBOT'' ''LIBRO'' ! 3 \<noteq> Correct"
proof -
  have h: "length ''ROBOT'' = length ''LIBRO''"
    by simp
  from exact_iff_same_letter [OF h]
  have "length (evaluate ''ROBOT'' ''LIBRO'') = length ''ROBOT''"
    and "(evaluate ''ROBOT'' ''LIBRO'' ! 2 = Correct) = (''ROBOT'' ! 2 = ''LIBRO'' ! 2)"
    and "(evaluate ''ROBOT'' ''LIBRO'' ! 3 = Correct) = (''ROBOT'' ! 3 = ''LIBRO'' ! 3)"
    by simp_all
  then show ?thesis
    by simp
qed

text \<open>
  Claim C10. The route consults no word list and no alphabet: it answers with its error
  response exactly when a field is missing or empty or the two lengths differ, and for
  every other pair of strings, whatever their characters, it succeeds with one verdict
  for every character of the guess it returns.
\<close>

theorem error_iff_malformed:
  "((\<exists>e. api_guess toUpperCase guess target = Inl e) \<longleftrightarrow>
      (guess = None \<or> guess = Some [] \<or> target = None \<or> target = Some [] \<or>
       (\<exists>g t. guess = Some g \<and> target = Some t \<and> length g \<noteq> length t)))
   \<and> (\<forall>g t. guess = Some g \<and> target = Some t \<and> g \<noteq> [] \<and> length g = length t \<longrightarrow>
        (\<exists>r. api_guess toUpperCase guess target = Inr r
             \<and> json_guess r = toUpperCase g
             \<and> length (json_result r) = length (json_guess r)))"
proof -
  have "(\<exists>e. api_guess toUpperCase guess target = Inl e) \<longleftrightarrow>
      (guess = None \<or> guess = Some [] \<or> target = None \<or> target = Some [] \<or>
       (\<exists>g t. guess = Some g \<and> target = Some t \<and> length g \<noteq> length t))"
    by (cases guess; cases target) (auto simp: api_guess_def Let_def)
  moreover have "\<forall>g t. guess = Some g \<and> target = Some t \<and> g \<noteq> [] \<and> length g = length t \<longrightarrow>
        (\<exists>r. api_guess toUpperCase guess target = Inr r
             \<and> json_guess r = toUpperCase g
             \<and> length (json_result r) = length (json_guess r))"
    by (auto simp: api_guess_success length_evaluate)
  ultimately show ?thesis
    by blast
qed

theorem error_iff_malformed_witness:
  "(\<exists>r. api_guess ascii_toUpperCase (Some ''x7 !q'') (Some ''?ZZ9#'') = Inr r
        \<and> json_guess r = ''X7 !Q''
        \<and> length (json_result r) = length (json_guess r))
   \<and> (\<exists>e. api_guess ascii_toUpperCase None (Some ''?ZZ9#'') = Inl e)"
proof -
  have u: "ascii_toUpperCase ''x7 !q'' = ''X7 !Q''"
    by code_simp
  have ok: "\<exists>r. api_guess ascii_toUpperCase (Some ''x7 !q'') (Some ''?ZZ9#'') = Inr r
        \<and> json_guess r = ''X7 !Q''
        \<and> length (json_result r) = length (json_guess r)"
    using error_iff_malformed [of ascii_toUpperCase "Some ''x7 !q''" "Some ''?ZZ9#''"]
    by (simp add: u)
  have bad: "\<exists>e. api_guess ascii_toUpperCase None (Some ''?ZZ9#'') = Inl e"
    using error_iff_malformed [of ascii_toUpperCase None "Some ''?ZZ9#''"] by simp
  from ok bad show ?thesis
    by blast
qed

end
